theory Spec2Isabelle
  imports Main "HOL-Library.Word"
begin

unbundle bit_operations_syntax

section \<open>Python values shared by both decoders\<close>

text \<open>
  A Python \<open>str\<close> is a sequence of Unicode code points, a \<open>bytes\<close> object a sequence of
  8-bit values. The exceptions the two scripts can raise are values of \<open>error\<close>; a
  function that can raise returns \<open>error + 'a\<close>, with \<open>Inl\<close> the exception.
\<close>

type_synonym pystr = "nat list"
type_synonym byte = "8 word"
type_synonym bytes = "byte list"

datatype error = IndexError | ValueError | TypeError | StructError | UnicodeDecodeError

abbreviation ch :: "char \<Rightarrow> nat" where
  "ch c \<equiv> of_char c"

definition str :: "string \<Rightarrow> pystr" where
  "str s = map ch s"

text \<open>\<open>xs[i]\<close>: a negative index counts from the end, an index out of range raises.\<close>

definition item :: "'a list \<Rightarrow> int \<Rightarrow> error + 'a" where
  "item xs i =
     (if 0 \<le> i then (if i < int (length xs) then Inr (xs ! nat i) else Inl IndexError)
      else (if - int (length xs) \<le> i then Inr (xs ! nat (int (length xs) + i))
            else Inl IndexError))"

text \<open>\<open>xs[a:b]\<close> for \<open>0 \<le> a\<close> and \<open>0 \<le> b\<close>: a slice is cut at the end of \<open>xs\<close>, it never raises.\<close>

definition py_slice :: "'a list \<Rightarrow> nat \<Rightarrow> nat \<Rightarrow> 'a list" where
  "py_slice xs a b = take (b - a) (drop a xs)"

section \<open>mtu\_tur.py: the Turkish container\<close>

text \<open>
  The custom alphabet of MTU.TUR, 59 code points: the 32 letters, then \<open>\<acirc>\<close> (226),
  \<open>\<icirc>\<close> (238) and \<open>\<ucirc>\<close> (251) among dots. The letters outside ASCII are \<open>\<ccedil>\<close> (231),
  g with breve (287), dotless i (305), \<open>\<ouml>\<close> (246), s with cedilla (351) and \<open>\<uuml>\<close> (252).
\<close>

definition alphabet :: pystr where
  "alphabet = str ''abc'' @ [231] @ str ''defg'' @ [287] @ str ''h'' @ [305]
     @ str ''ijklmno'' @ [246] @ str ''pqrs'' @ [351] @ str ''tu'' @ [252] @ str ''vwxyz''
     @ [226] @ str ''..........'' @ [238] @ str ''..............'' @ [251]"

definition GetSuffixLength :: "int \<Rightarrow> int option" where
  "GetSuffixLength v =
     (if 0x00 \<le> v \<and> v < 0xb8 then Some (v div 8)
      else if 0xb8 \<le> v \<and> v < 0x100 then Some (3 + ((v - 0xb8) div 0x18))
      else None)"

text \<open>
  \<open>suffix[-1]\<close> and \<open>suffix[0]\<close> raise IndexError on the empty string; the slices
  \<open>suffix[:-1]\<close>, \<open>suffix[1:]\<close> and \<open>suffix[::-1]\<close> do not.
\<close>

definition GetSuffixReodered :: "pystr \<Rightarrow> int \<Rightarrow> error + pystr" where
  "GetSuffixReodered suffix v =
     (if v \<ge> 0xb8 then
        (let w = (v - 0xb8) mod 0x18 in
         if 0x00 \<le> w \<and> w < 0x08 then
           (if suffix = [] then Inl IndexError else Inr (last suffix # butlast suffix))
         else if 0x08 \<le> w \<and> w < 0x10 then
           (if suffix = [] then Inl IndexError else Inr (tl suffix @ [hd suffix]))
         else if 0x10 \<le> w \<and> w < 0x18 then Inr (rev suffix)
         else Inr suffix)
      else Inr suffix)"

text \<open>The dictionary \<open>consonants\<close> of ApplyModifications: b, c, d, g and g with breve.\<close>

definition consonants :: "nat \<rightharpoonup> nat" where
  "consonants = [ch CHR ''b'' \<mapsto> ch CHR ''p'', ch CHR ''c'' \<mapsto> 231,
     ch CHR ''d'' \<mapsto> ch CHR ''t'', ch CHR ''g'' \<mapsto> ch CHR ''k'', 287 \<mapsto> ch CHR ''k'']"

text \<open>The record \<open>data\<close> of the sixth section is an argument, and the body never reads it.\<close>

definition ApplyModifications :: "bytes \<Rightarrow> pystr \<Rightarrow> pystr \<Rightarrow> pystr \<times> pystr" where
  "ApplyModifications data prefix suffix =
     (if suffix \<noteq> [] then
        (case consonants (last suffix) of
           Some c \<Rightarrow> (prefix, butlast suffix @ [c])
         | None \<Rightarrow> (prefix, suffix))
      else (prefix, suffix))"

text \<open>
  The devoicing rule in the words of the specification: b to p, c to \<open>\<ccedil>\<close>, d to t,
  g to k, g with breve to k, every other character unchanged.
\<close>

definition devoiced :: "nat \<Rightarrow> nat" where
  "devoiced c =
     (if c = ch CHR ''b'' then ch CHR ''p''
      else if c = ch CHR ''c'' then 231
      else if c = ch CHR ''d'' then ch CHR ''t''
      else if c = ch CHR ''g'' then ch CHR ''k''
      else if c = 287 then ch CHR ''k''
      else c)"

text \<open>\<open>struct.unpack("<H", b)[0]\<close>: exactly two bytes, little-endian, or struct.error.\<close>

definition unpack_H :: "bytes \<Rightarrow> error + nat" where
  "unpack_H b = (case b of [lo, hi] \<Rightarrow> Inr (unat lo + 256 * unat hi) | _ \<Rightarrow> Inl StructError)"

text \<open>
  The two loops of GetSuffix, \<open>suffix += alphabet[src[p]]\<close> for \<open>p\<close> in a range: \<open>src\<close> is
  the instruction record or the whole file, and either index can raise.
\<close>

fun append_letters :: "bytes \<Rightarrow> nat list \<Rightarrow> pystr \<Rightarrow> error + pystr" where
  "append_letters src [] suffix = Inr suffix"
| "append_letters src (p # ps) suffix =
     (case item src (int p) of
        Inl e \<Rightarrow> Inl e
      | Inr index \<Rightarrow>
          (case item alphabet (uint index) of
             Inl e \<Rightarrow> Inl e
           | Inr c \<Rightarrow> append_letters src ps (suffix @ [c])))"

text \<open>
  GetSuffixLength returns None outside 0..255, and the comparison \<open>1 <= None\<close> that
  follows raises TypeError; a byte of the record is always inside.
\<close>

definition GetSuffix :: "bytes \<Rightarrow> bytes \<Rightarrow> nat \<Rightarrow> error + pystr" where
  "GetSuffix data instructions base_offset =
     (case item instructions 1 of
        Inl e \<Rightarrow> Inl e
      | Inr b1 \<Rightarrow>
          (case GetSuffixLength (uint b1) of
             None \<Rightarrow> Inl TypeError
           | Some suffix_length \<Rightarrow>
               (case
                  (if suffix_length = 0 then Inr []
                   else if 1 \<le> suffix_length \<and> suffix_length \<le> 2 then
                     append_letters instructions
                       (map (\<lambda>i. 2 + i) [0 ..< nat suffix_length]) []
                   else
                     (case unpack_H (py_slice instructions 2 4) of
                        Inl e \<Rightarrow> Inl e
                      | Inr offset \<Rightarrow>
                          (let pos = base_offset + offset in
                           append_letters data
                             (map (\<lambda>i. pos + i) [0 ..< nat suffix_length]) [])))
                of
                  Inl e \<Rightarrow> Inl e
                | Inr suffix \<Rightarrow> GetSuffixReodered suffix (uint b1))))"

text \<open>\<open>format(value, '02x')\<close> for a value that is not negative: lower-case hexadecimal
  digits, padded with zeros to two places.\<close>

definition hex_digit :: "nat \<Rightarrow> nat" where
  "hex_digit d = (if d < 10 then ch CHR ''0'' + d else ch CHR ''a'' + (d - 10))"

fun hex_digits :: "nat \<Rightarrow> pystr" where
  "hex_digits n = (if n < 16 then [hex_digit n] else hex_digits (n div 16) @ [hex_digit (n mod 16)])"

declare hex_digits.simps [simp del]

definition ByteToHex :: "nat \<Rightarrow> pystr" where
  "ByteToHex v = (let s = hex_digits v in replicate (2 - length s) (ch CHR ''0'') @ s)"

text \<open>
  The string \<open>debug\<close> of ReadDictionaryEntries, built from bytes 1 and 0 of the
  record; the test \<open>True or len(suffix) < 2\<close> always takes its branch.
\<close>

definition debug_columns :: "byte \<Rightarrow> byte \<Rightarrow> pystr" where
  "debug_columns b0 b1 =
     ByteToHex (unat b1 mod 8) @ str ''    ''
     @ ByteToHex (unat b1) @ str '' '' @ ByteToHex (unat b0) @ str '' '' @ str ''   ''"

text \<open>
  The body of the inner loop for the record at index \<open>i\<close>: the prefix as
  ApplyModifications hands it back, and the string appended to the dictionary.
\<close>

definition entry ::
  "bytes \<Rightarrow> nat \<Rightarrow> bytes list \<Rightarrow> bytes list \<Rightarrow> pystr \<Rightarrow> int \<Rightarrow> error + (pystr \<times> pystr)" where
  "entry data base_offset section4 section6 prefix i =
     (case item section4 i of
        Inl e \<Rightarrow> Inl e
      | Inr record4 \<Rightarrow>
          (case GetSuffix data record4 base_offset of
             Inl e \<Rightarrow> Inl e
           | Inr suffix \<Rightarrow>
               (case item record4 0 of
                  Inl e \<Rightarrow> Inl e
                | Inr section6_index \<Rightarrow>
                    (case item section6 (uint section6_index) of
                       Inl e \<Rightarrow> Inl e
                     | Inr record6 \<Rightarrow>
                         (case ApplyModifications record6 prefix suffix of
                            (prefix', suffix') \<Rightarrow>
                              (case item record4 1 of
                                 Inl e \<Rightarrow> Inl e
                               | Inr b1 \<Rightarrow>
                                   Inr (prefix',
                                        debug_columns section6_index b1 @ prefix' @ suffix')))))))"

text \<open>The inner loop, over \<open>range(item_index, item_index + count)\<close>.\<close>

fun entries ::
  "bytes \<Rightarrow> nat \<Rightarrow> bytes list \<Rightarrow> bytes list \<Rightarrow> pystr \<Rightarrow> int list \<Rightarrow> pystr list
     \<Rightarrow> error + (pystr \<times> pystr list)" where
  "entries data base_offset section4 section6 prefix [] dictionary = Inr (prefix, dictionary)"
| "entries data base_offset section4 section6 prefix (i # rest) dictionary =
     (case entry data base_offset section4 section6 prefix i of
        Inl e \<Rightarrow> Inl e
      | Inr (prefix', line) \<Rightarrow>
          entries data base_offset section4 section6 prefix' rest (dictionary @ [line]))"

text \<open>The outer loop over the pairs (prefix, count), carrying \<open>item_index\<close>.\<close>

fun prefix_loop ::
  "bytes \<Rightarrow> nat \<Rightarrow> bytes list \<Rightarrow> bytes list \<Rightarrow> (pystr \<times> int) list \<Rightarrow> int \<Rightarrow> pystr list
     \<Rightarrow> error + pystr list" where
  "prefix_loop data base_offset section4 section6 [] item_index dictionary = Inr dictionary"
| "prefix_loop data base_offset section4 section6 ((prefix, count) # rest) item_index dictionary =
     (if count = 0 then
        prefix_loop data base_offset section4 section6 rest item_index dictionary
      else
        (case entries data base_offset section4 section6 prefix
                [item_index .. item_index + count - 1] dictionary of
           Inl e \<Rightarrow> Inl e
         | Inr (_, dictionary') \<Rightarrow>
             prefix_loop data base_offset section4 section6 rest (item_index + count)
               dictionary'))"

definition ReadDictionaryEntries ::
  "pystr list \<Rightarrow> bytes \<Rightarrow> nat \<Rightarrow> (pystr \<times> int) list \<Rightarrow> bytes list \<Rightarrow> bytes list
     \<Rightarrow> error + pystr list" where
  "ReadDictionaryEntries dictionary data base_offset prefixes section4 section6 =
     prefix_loop data base_offset section4 section6 prefixes 0 dictionary"




definition letter_count :: nat where
  "letter_count = 32"

text \<open>One pair of \<open>prefixes\<close>: the two letters of \<open>prefix_index\<close> and the count.\<close>

definition prefix_entry :: "nat list \<Rightarrow> nat \<Rightarrow> error + (pystr \<times> int)" where
  "prefix_entry section2 prefix_index =
     (case item alphabet (int (prefix_index div letter_count)) of
        Inl e \<Rightarrow> Inl e
      | Inr a \<Rightarrow>
          (case item alphabet (int (prefix_index mod letter_count)) of
             Inl e \<Rightarrow> Inl e
           | Inr b \<Rightarrow>
               Inr ([a] @ [b],
                    int (section2 ! (prefix_index + 1)) - int (section2 ! prefix_index))))"

fun traverse :: "('a \<Rightarrow> error + 'b) \<Rightarrow> 'a list \<Rightarrow> error + 'b list" where
  "traverse f [] = Inr []"
| "traverse f (x # xs) =
     (case f x of
        Inl e \<Rightarrow> Inl e
      | Inr y \<Rightarrow> (case traverse f xs of Inl e \<Rightarrow> Inl e | Inr ys \<Rightarrow> Inr (y # ys)))"

definition make_prefixes :: "nat list \<Rightarrow> error + (pystr \<times> int) list" where
  "make_prefixes section2 = traverse (prefix_entry section2) [0 ..< length section2 - 1]"



section \<open>mtu\_trk.py: the English-Turkish container\<close>

text \<open>
  The suffixes that MTU.TRK replaces by instructions, in the order of the source: six
  of seven letters, five of six, 29 of five, 62 of four, 63 of three and 30 of two.
\<close>

definition suffixes :: "pystr list" where
  "suffixes = map str [
     ''ability'', ''ibility'', ''iveness'', ''ization'', ''fulness'',
     ''ousness'',
     ''ectomy'', ''edness'', ''liness'', ''ically'', ''lessly'',
     ''ality'', ''alism'', ''antly'', ''arian'', ''ating'',
     ''ation'', ''ative'', ''atory'', ''berry'', ''board'',
     ''bound'', ''ering'', ''esque'', ''fully'', ''house'',
     ''ially'', ''iness'', ''ingly'', ''ional'', ''istic'',
     ''ition'', ''ively'', ''ivity'', ''light'', ''ology'',
     ''orium'', ''ously'', ''stone'', ''ually'',
     ''able'', ''ance'', ''ancy'', ''ally'', ''ated'',
     ''back'', ''ball'', ''band'', ''bing'', ''bird'',
     ''boat'', ''bone'', ''book'', ''cide'', ''cule'',
     ''ding'', ''down'', ''ence'', ''ency'', ''ener'',
     ''ette'', ''fold'', ''ging'', ''head'', ''hood'',
     ''ible'', ''ical'', ''icle'', ''ings'', ''ious'',
     ''itis'', ''izer'', ''land'', ''less'', ''like'',
     ''line'', ''ling'', ''logy'', ''make'', ''ment'',
     ''ming'', ''ness'', ''ning'', ''ntly'', ''osis'',
     ''over'', ''ping'', ''ring'', ''room'', ''ship'',
     ''side'', ''sing'', ''sman'', ''some'', ''ster'',
     ''tail'', ''time'', ''ting'', ''wise'', ''wood'',
     ''work'', ''wort'',
     ''acy'', ''ade'', ''age'', ''and'', ''ant'',
     ''ary'', ''ate'', ''ble'', ''boy'', ''dom'',
     ''end'', ''ent'', ''ery'', ''ese'', ''ess'',
     ''est'', ''eur'', ''ful'', ''ger'', ''ial'',
     ''ian'', ''ide'', ''ied'', ''ier'', ''ile'',
     ''ily'', ''ine'', ''ing'', ''ion'', ''ise'',
     ''ish'', ''ism'', ''ist'', ''ite'', ''ity'',
     ''ium'', ''ive'', ''ize'', ''kin'', ''ler'',
     ''let'', ''man'', ''med'', ''nce'', ''ned'',
     ''oid'', ''ome'', ''oon'', ''ory'', ''ous'',
     ''out'', ''per'', ''red'', ''rer'', ''sed'',
     ''ted'', ''ter'', ''tic'', ''ual'', ''ule'',
     ''ure'', ''way'', ''yer'',
     ''ae'', ''al'', ''an'', ''ar'', ''by'',
     ''ch'', ''cy'', ''ed'', ''el'', ''en'',
     ''er'', ''et'', ''ey'', ''fy'', ''ia'',
     ''ic'', ''ie'', ''in'', ''is'', ''ly'',
     ''nt'', ''on'', ''or'', ''ow'', ''ry'',
     ''st'', ''th'', ''to'', ''ty'', ''us'']"

text \<open>\<open>chr(n)\<close> raises ValueError outside \<open>range(0x110000)\<close>.\<close>

definition py_chr :: "int \<Rightarrow> error + nat" where
  "py_chr n = (if 0 \<le> n \<and> n < 0x110000 then Inr (nat n) else Inl ValueError)"

text \<open>
  \<open>str.title()\<close>: a cased character that follows an uncased one is put in upper case,
  one that follows a cased character in lower case. The case tables here are those of
  ASCII, which decide the call on every prefix made of the letters a to z; a code point
  outside ASCII is taken as uncased.
\<close>

definition cased :: "nat \<Rightarrow> bool" where
  "cased c = ((ch CHR ''A'' \<le> c \<and> c \<le> ch CHR ''Z'') \<or> (ch CHR ''a'' \<le> c \<and> c \<le> ch CHR ''z''))"

definition upper :: "nat \<Rightarrow> nat" where
  "upper c = (if ch CHR ''a'' \<le> c \<and> c \<le> ch CHR ''z'' then c - 32 else c)"

definition lower :: "nat \<Rightarrow> nat" where
  "lower c = (if ch CHR ''A'' \<le> c \<and> c \<le> ch CHR ''Z'' then c + 32 else c)"

fun title_from :: "bool \<Rightarrow> pystr \<Rightarrow> pystr" where
  "title_from previous_is_cased [] = []"
| "title_from previous_is_cased (c # cs) =
     (if previous_is_cased then lower c else upper c) # title_from (cased c) cs"

definition title :: "pystr \<Rightarrow> pystr" where
  "title s = title_from False s"

text \<open>Line 74: the two letters of the prefix.\<close>

definition prefix_letters :: "int \<Rightarrow> error + pystr" where
  "prefix_letters prefix_index =
     (case py_chr (int (ch CHR ''a'') + prefix_index div 26) of
        Inl e \<Rightarrow> Inl e
      | Inr a \<Rightarrow>
          (case py_chr (int (ch CHR ''a'') + prefix_index mod 26) of
             Inl e \<Rightarrow> Inl e
           | Inr b \<Rightarrow> Inr ([a] @ [b])))"

text \<open>
  The tests \<open>instruction is 0x00\<close> compare an int taken from a bytes object with a
  small literal; CPython keeps one object for each int from -5 to 256, so \<open>is\<close>
  decides as \<open>==\<close> does. \<open>previous_morpheme[:n]\<close> is a py_slice with \<open>0 < n\<close>.
\<close>

definition ExpandMorpheme :: "int \<Rightarrow> pystr \<Rightarrow> pystr \<Rightarrow> int \<Rightarrow> int \<Rightarrow> error + pystr" where
  "ExpandMorpheme prefix_index morpheme previous_morpheme instruction suffix_index =
     (case prefix_letters prefix_index of
        Inl e \<Rightarrow> Inl e
      | Inr prefix \<Rightarrow>
          if instruction = 0x00 \<or> instruction = 0x12 then
            Inr (prefix @ morpheme)
          else if instruction = 0x20 then
            Inr (title prefix @ morpheme)
          else if 0x40 < instruction \<and> instruction < 0x50 then
            (let n = instruction - 0x40 in
             Inr (prefix @ (take (nat n) previous_morpheme @ morpheme)))
          else if 0x60 < instruction \<and> instruction < 0x70 then
            (let n = instruction - 0x60 in
             Inr (title prefix @ (take (nat n) previous_morpheme @ morpheme)))
          else if instruction = 0x80 then
            (case item suffixes suffix_index of
               Inl e \<Rightarrow> Inl e
             | Inr s \<Rightarrow> Inr (prefix @ (morpheme @ s)))
          else if instruction = 0xA0 then
            (case item suffixes suffix_index of
               Inl e \<Rightarrow> Inl e
             | Inr s \<Rightarrow> Inr (title prefix @ (morpheme @ s)))
          else if 0xC0 < instruction \<and> instruction < 0xD0 then
            (let n = instruction - 0xC0 in
             case item suffixes suffix_index of
               Inl e \<Rightarrow> Inl e
             | Inr s \<Rightarrow> Inr (prefix @ (take (nat n) previous_morpheme @ morpheme @ s)))
          else if 0xE0 < instruction \<and> instruction < 0xF0 then
            (let n = instruction - 0xE0 in
             case item suffixes suffix_index of
               Inl e \<Rightarrow> Inl e
             | Inr s \<Rightarrow> Inr (title prefix @ (take (nat n) previous_morpheme @ morpheme @ s)))
          else Inr (prefix @ morpheme))"

text \<open>
  \<open>bytes.decode("cp857")\<close>. The code page is Python's table, not code of the
  repository: it is the parameter \<open>cp857\<close>, a byte with no character raising
  UnicodeDecodeError.
\<close>

fun decode :: "(byte \<Rightarrow> nat option) \<Rightarrow> bytes \<Rightarrow> error + pystr" where
  "decode cp857 [] = Inr []"
| "decode cp857 (b # bs) =
     (case cp857 b of
        None \<Rightarrow> Inl UnicodeDecodeError
      | Some c \<Rightarrow> (case decode cp857 bs of Inl e \<Rightarrow> Inl e | Inr s \<Rightarrow> Inr (c # s)))"

text \<open>\<open>s.replace(old, new)\<close> for two strings of one character.\<close>

definition replace :: "nat \<Rightarrow> nat \<Rightarrow> pystr \<Rightarrow> pystr" where
  "replace old new s = map (\<lambda>c. if c = old then new else c) s"

text \<open>\<open>struct.unpack("<L", b)[0]\<close>: exactly four bytes.\<close>

definition unpack_L :: "bytes \<Rightarrow> error + nat" where
  "unpack_L b =
     (case b of
        [b0, b1, b2, b3] \<Rightarrow>
          Inr (unat b0 + 256 * unat b1 + 65536 * unat b2 + 16777216 * unat b3)
      | _ \<Rightarrow> Inl StructError)"

text \<open>The offset map: \<open>n\<close> offsets of three bytes, each padded to four.\<close>

fun read_offsets :: "bytes \<Rightarrow> nat \<Rightarrow> nat \<Rightarrow> error + (nat list \<times> nat)" where
  "read_offsets data pos 0 = Inr ([], pos)"
| "read_offsets data pos (Suc n) =
     (case unpack_L (py_slice data pos (pos + 3) @ [0x00]) of
        Inl e \<Rightarrow> Inl e
      | Inr v \<Rightarrow>
          (case read_offsets data (pos + 3) n of
             Inl e \<Rightarrow> Inl e
           | Inr (vs, pos') \<Rightarrow> Inr (v # vs, pos')))"

text \<open>
  \<open>while data[pos + en_len] is not 0xFF: en_len += 1\<close>, on the bytes from \<open>pos\<close> on:
  the length found, or None where the index runs past the end (IndexError).
\<close>

fun scan_FF :: "bytes \<Rightarrow> nat option" where
  "scan_FF [] = None"
| "scan_FF (b # bs) = (if b = 0xFF then Some 0 else map_option Suc (scan_FF bs))"

text \<open>The middle-endian offset \<open>data[pos + 1] | (data[pos + 2] << 8) | (data[pos] << 16)\<close>.\<close>

definition tr_offset_of :: "byte \<Rightarrow> byte \<Rightarrow> byte \<Rightarrow> nat" where
  "tr_offset_of b0 b1 b2 = unat b1 OR push_bit 8 (unat b2) OR push_bit 16 (unat b0)"

text \<open>Lines 151 to 172: the Turkish entry whose offset is at \<open>pos\<close>.\<close>

definition read_turkish :: "(byte \<Rightarrow> nat option) \<Rightarrow> bytes \<Rightarrow> nat \<Rightarrow> nat \<Rightarrow> error + pystr" where
  "read_turkish cp857 data base_offset pos =
     (case item data (int (pos + 1)) of
        Inl e \<Rightarrow> Inl e
      | Inr b1 \<Rightarrow>
     (case item data (int (pos + 2)) of
        Inl e \<Rightarrow> Inl e
      | Inr b2 \<Rightarrow>
     (case item data (int pos) of
        Inl e \<Rightarrow> Inl e
      | Inr b0 \<Rightarrow>
          (let tr_offset = tr_offset_of b0 b1 b2 in
           if tr_offset > 0 then
             (let tr_pos = base_offset + tr_offset in
              case unpack_H (py_slice data tr_pos (tr_pos + 2)) of
                Inl e \<Rightarrow> Inl e
              | Inr tr_len \<Rightarrow>
                  if tr_len > 0 then
                    (case decode cp857 (py_slice data (tr_pos + 2) (tr_pos + 2 + tr_len)) of
                       Inl e \<Rightarrow> Inl e
                     | Inr turkish \<Rightarrow>
                         Inr (replace 0xA0 (ch CHR ''#'')
                                (replace 0x60 (ch (CHR 0x27)) turkish)))
                  else Inr [])
           else Inr []))))"

text \<open>
  The body of the \<open>while\<close> loop for prefix \<open>i\<close>: the entry, the position after it and
  the new \<open>previous_word\<close>.
\<close>

definition read_entry ::
  "(byte \<Rightarrow> nat option) \<Rightarrow> bytes \<Rightarrow> nat \<Rightarrow> int \<Rightarrow> nat \<Rightarrow> pystr
     \<Rightarrow> error + ((pystr \<times> pystr) \<times> nat \<times> pystr)" where
  "read_entry cp857 data base_offset i pos previous_word =
     (case item data (int pos) of
        Inl e \<Rightarrow> Inl e
      | Inr instruction \<Rightarrow>
     (case (if uint instruction \<ge> 0x80 then
              (case item data (int (pos + 1)) of
                 Inl e \<Rightarrow> Inl e
               | Inr b \<Rightarrow> Inr (uint b, pos + 1 + 1))
            else Inr (0, pos + 1)) of
        Inl e \<Rightarrow> Inl e
      | Inr (suffix_index, pos2) \<Rightarrow>
     (case scan_FF (drop pos2 data) of
        None \<Rightarrow> Inl IndexError
      | Some en_len \<Rightarrow>
     (case decode cp857 (py_slice data pos2 (pos2 + en_len)) of
        Inl e \<Rightarrow> Inl e
      | Inr morpheme \<Rightarrow>
     (case ExpandMorpheme i morpheme previous_word (uint instruction) suffix_index of
        Inl e \<Rightarrow> Inl e
      | Inr english \<Rightarrow>
     (case read_turkish cp857 data base_offset (pos2 + (en_len + 1)) of
        Inl e \<Rightarrow> Inl e
      | Inr turkish \<Rightarrow>
          Inr ((english, turkish), pos2 + (en_len + 1) + 3, drop 2 english)))))))"

text \<open>Every entry read moves \<open>pos\<close> forward, so the \<open>while\<close> loop of a prefix ends.\<close>

lemma read_entry_advances:
  "read_entry cp857 data base_offset i pos previous_word = Inr (e, pos', w) \<Longrightarrow> pos < pos'"
  by (auto simp: read_entry_def split: sum.splits option.splits if_splits)

function entry_loop ::
  "(byte \<Rightarrow> nat option) \<Rightarrow> bytes \<Rightarrow> nat \<Rightarrow> int \<Rightarrow> nat \<Rightarrow> nat \<Rightarrow> pystr \<Rightarrow> (pystr \<times> pystr) list
     \<Rightarrow> error + (nat \<times> pystr \<times> (pystr \<times> pystr) list)" where
  "entry_loop cp857 data base_offset i limit pos previous_word dictionary =
     (if pos < limit then
        (case read_entry cp857 data base_offset i pos previous_word of
           Inl e \<Rightarrow> Inl e
         | Inr (e, pos', previous_word') \<Rightarrow>
             entry_loop cp857 data base_offset i limit pos' previous_word' (dictionary @ [e]))
      else Inr (pos, previous_word, dictionary))"
  by pat_completeness auto
termination
  by (relation "measure (\<lambda>(cp857, data, base_offset, i, limit, pos, w, d). limit - pos)")
     (auto dest: read_entry_advances)

declare entry_loop.simps [simp del]

text \<open>The \<open>for\<close> loop over the offsets, each with its index.\<close>

fun offset_loop ::
  "(byte \<Rightarrow> nat option) \<Rightarrow> bytes \<Rightarrow> nat \<Rightarrow> (nat \<times> nat) list \<Rightarrow> nat \<Rightarrow> pystr
     \<Rightarrow> (pystr \<times> pystr) list \<Rightarrow> error + (pystr \<times> pystr) list" where
  "offset_loop cp857 data base_offset [] pos previous_word dictionary = Inr dictionary"
| "offset_loop cp857 data base_offset ((i, offset) # rest) pos previous_word dictionary =
     (case entry_loop cp857 data base_offset (int i) (base_offset + offset) pos previous_word
             dictionary of
        Inl e \<Rightarrow> Inl e
      | Inr (pos', previous_word', dictionary') \<Rightarrow>
          offset_loop cp857 data base_offset rest pos' previous_word' dictionary')"

text \<open>ReadFile up to the list \<open>dictionary\<close>, then the text it writes.\<close>

definition read_dictionary :: "(byte \<Rightarrow> nat option) \<Rightarrow> bytes \<Rightarrow> error + (pystr \<times> pystr) list" where
  "read_dictionary cp857 data =
     (case read_offsets data 3 (26 * 26) of
        Inl e \<Rightarrow> Inl e
      | Inr (offsets, base_offset) \<Rightarrow>
          offset_loop cp857 data base_offset (zip [0 ..< length offsets] offsets)
            base_offset [] [])"



section \<open>Suffix length\<close>

text \<open>
  C3. For every byte value \<open>v\<close> in 0x00..0xFF, GetSuffixLength returns \<open>v div 8\<close> when
  \<open>v < 0xB8\<close>, a value in 0..22, and \<open>3 + (v - 0xB8) div 24\<close> when \<open>0xB8 \<le> v\<close>, a value
  in 3..5.
\<close>

theorem GetSuffixLength_byte:
  assumes "0x00 \<le> v" and "v \<le> 0xFF"
  shows "(v < 0xB8 \<longrightarrow>
            GetSuffixLength v = Some (v div 8) \<and> 0 \<le> v div 8 \<and> v div 8 \<le> 22)
       \<and> (0xB8 \<le> v \<longrightarrow>
            GetSuffixLength v = Some (3 + (v - 0xB8) div 24)
            \<and> 3 \<le> 3 + (v - 0xB8) div 24 \<and> 3 + (v - 0xB8) div 24 \<le> 5)"
  using assms by (auto simp: GetSuffixLength_def)

theorem GetSuffixLength_byte_witness:
  "GetSuffixLength 0xB7 = Some 22 \<and> GetSuffixLength 0xB8 = Some 3
   \<and> GetSuffixLength 0xFF = Some 5 \<and> GetSuffixLength 0x00 = Some 0"
  using GetSuffixLength_byte [of "0xB7"] GetSuffixLength_byte [of "0xB8"]
    GetSuffixLength_byte [of "0xFF"] GetSuffixLength_byte [of "0x00"]
  by simp

section \<open>Reordering a suffix\<close>

definition reorder_then :: "error + pystr \<Rightarrow> int \<Rightarrow> error + pystr" where
  "reorder_then r v = (case r of Inl e \<Rightarrow> Inl e | Inr s \<Rightarrow> GetSuffixReodered s v)"

text \<open>
  C4. For a suffix that is not empty: reversing twice gives the suffix back, and so does
  a rotation to the right followed by one to the left, in either order. The selector
  bytes are any in the bucket of the transform: \<open>vr\<close> rotates right, \<open>vl\<close> rotates
  left, \<open>va\<close> and \<open>vb\<close> reverse.
\<close>

theorem reorder_round_trip:
  assumes "s \<noteq> []"
    and "0xb8 \<le> vr" and "(vr - 0xb8) mod 0x18 < 0x08"
    and "0xb8 \<le> vl" and "0x08 \<le> (vl - 0xb8) mod 0x18" and "(vl - 0xb8) mod 0x18 < 0x10"
    and "0xb8 \<le> va" and "0x10 \<le> (va - 0xb8) mod 0x18"
    and "0xb8 \<le> vb" and "0x10 \<le> (vb - 0xb8) mod 0x18"
  shows "GetSuffixReodered s vr = Inr (last s # butlast s)
       \<and> GetSuffixReodered s vl = Inr (tl s @ [hd s])
       \<and> GetSuffixReodered s va = Inr (rev s)
       \<and> reorder_then (GetSuffixReodered s va) vb = Inr s
       \<and> reorder_then (GetSuffixReodered s vr) vl = Inr s
       \<and> reorder_then (GetSuffixReodered s vl) vr = Inr s"
proof -
  have r: "GetSuffixReodered t vr = Inr (last t # butlast t)" if "t \<noteq> []" for t
    using that assms(2,3) by (simp add: GetSuffixReodered_def Let_def)
  have l: "GetSuffixReodered t vl = Inr (tl t @ [hd t])" if "t \<noteq> []" for t
    using that assms(4,5,6) by (simp add: GetSuffixReodered_def Let_def)
  have a: "GetSuffixReodered t va = Inr (rev t)" for t
    using assms(7,8) by (simp add: GetSuffixReodered_def Let_def)
  have b: "GetSuffixReodered t vb = Inr (rev t)" for t
    using assms(9,10) by (simp add: GetSuffixReodered_def Let_def)
  show ?thesis
    using assms(1) by (simp add: reorder_then_def r l a b)
qed

theorem reorder_round_trip_witness:
  "reorder_then (GetSuffixReodered (str ''abcd'') 0xc8) 0xe0 = Inr (str ''abcd'')
   \<and> reorder_then (GetSuffixReodered (str ''abcd'') 0xb8) 0xc7 = Inr (str ''abcd'')
   \<and> reorder_then (GetSuffixReodered (str ''abcd'') 0xc7) 0xb8 = Inr (str ''abcd'')
   \<and> GetSuffixReodered (str ''abcd'') 0xb8 = Inr (str ''dabc'')
   \<and> GetSuffixReodered (str ''abcd'') 0xc7 = Inr (str ''bcda'')
   \<and> GetSuffixReodered (str ''abcd'') 0xc8 = Inr (str ''dcba'')"
  using reorder_round_trip [of "str ''abcd''" "0xb8" "0xc7" "0xc8" "0xe0"]
  by (auto simp: str_def reorder_then_def)

section \<open>The modification step\<close>

text \<open>
  C10. ApplyModifications returns the prefix unchanged, and the suffix with its last
  character devoiced and every other character unchanged; the record of the sixth
  section has no part in the result.
\<close>

theorem ApplyModifications_frame:
  "ApplyModifications data prefix suffix =
     (prefix, if suffix = [] then [] else butlast suffix @ [devoiced (last suffix)])
   \<and> ApplyModifications data prefix suffix = ApplyModifications data' prefix suffix
   \<and> length (snd (ApplyModifications data prefix suffix)) = length suffix
   \<and> butlast (snd (ApplyModifications data prefix suffix)) = butlast suffix"
  by (simp add: ApplyModifications_def consonants_def devoiced_def)

theorem ApplyModifications_frame_witness:
  "ApplyModifications [0x80, 0x40, 0x00, 0x00] (str ''ab'') (str ''ad'') = (str ''ab'', str ''at'')
   \<and> ApplyModifications [] (str ''ab'') (str ''ad'') = (str ''ab'', str ''at'')
   \<and> ApplyModifications [] (str ''ab'') (str ''dan'') = (str ''ab'', str ''dan'')"
  using ApplyModifications_frame [of "[0x80, 0x40, 0x00, 0x00]" "str ''ab''" "str ''ad''" "[]"]
    ApplyModifications_frame [of "[]" "str ''ab''" "str ''dan''" "[]"]
  by (auto simp: str_def devoiced_def)

section \<open>Expanding a morpheme\<close>

text \<open>
  The offset map has 26 * 26 slots, and ReadFile passes their indices: for these the
  two letters of the prefix exist, \<open>chr\<close> raising only far outside them.
\<close>

lemma prefix_letters_slot:
  assumes "0 \<le> prefix_index" and "prefix_index < 26 * 26"
  shows "prefix_letters prefix_index =
           Inr [nat (97 + prefix_index div 26), nat (97 + prefix_index mod 26)]"
proof -
  have "prefix_index div 26 < 26" using assms by simp
  moreover have "0 \<le> prefix_index div 26" using assms by simp
  moreover have "0 \<le> prefix_index mod 26" "prefix_index mod 26 < 26" by simp_all
  ultimately show ?thesis
    by (simp add: prefix_letters_def py_chr_def)
qed

text \<open>
  C1. For a prefix index of the offset map and an instruction \<open>c\<close> from 0x41 to 0x4F,
  ExpandMorpheme returns the two letters of the prefix, then the first \<open>c - 0x40\<close>
  characters of the previous word, then the morpheme, nothing capitalized; with 0x43,
  the previous word "cathood" and the morpheme "ness" that is the prefix, "cat" and
  "ness". The previous word that ReadFile carries to the next entry is the headword
  without its first two characters. The same holds of any index whose two letters
  exist.
\<close>

theorem ExpandMorpheme_prepend:
  assumes "0 \<le> prefix_index" and "prefix_index < 26 * 26"
    and "0x41 \<le> c" and "c \<le> 0x4F"
  shows "ExpandMorpheme prefix_index morpheme previous_word c suffix_index =
           Inr ([nat (97 + prefix_index div 26), nat (97 + prefix_index mod 26)]
                @ take (nat (c - 0x40)) previous_word @ morpheme)
       \<and> ExpandMorpheme prefix_index (str ''ness'') (str ''cathood'') 0x43 suffix_index =
           Inr ([nat (97 + prefix_index div 26), nat (97 + prefix_index mod 26)]
                @ str ''cat'' @ str ''ness'')
       \<and> (read_entry cp857 data base_offset prefix_index pos previous_word
             = Inr ((english, turkish), pos', previous_word')
           \<longrightarrow> previous_word' = drop 2 english)
       \<and> (prefix_letters any_index = Inr prefix
           \<longrightarrow> ExpandMorpheme any_index morpheme previous_word c suffix_index =
                 Inr (prefix @ take (nat (c - 0x40)) previous_word @ morpheme))"
proof -
  have p: "prefix_letters prefix_index =
             Inr [nat (97 + prefix_index div 26), nat (97 + prefix_index mod 26)]"
    using assms(1,2) by (rule prefix_letters_slot)
  have general: "ExpandMorpheme prefix_index m w c suffix_index =
      Inr ([nat (97 + prefix_index div 26), nat (97 + prefix_index mod 26)]
           @ take (nat (c - 0x40)) w @ m)" for m w
    using assms(3,4) by (simp add: ExpandMorpheme_def p)
  have example: "ExpandMorpheme prefix_index (str ''ness'') (str ''cathood'') 0x43 suffix_index =
      Inr ([nat (97 + prefix_index div 26), nat (97 + prefix_index mod 26)]
           @ str ''cat'' @ str ''ness'')"
    by (simp add: ExpandMorpheme_def p str_def)
  have threaded: "read_entry cp857 data base_offset prefix_index pos previous_word
             = Inr ((english, turkish), pos', previous_word')
           \<longrightarrow> previous_word' = drop 2 english"
    by (auto simp: read_entry_def split: sum.splits option.splits if_splits)
  have whenever: "prefix_letters any_index = Inr prefix
      \<longrightarrow> ExpandMorpheme any_index morpheme previous_word c suffix_index =
            Inr (prefix @ take (nat (c - 0x40)) previous_word @ morpheme)"
    using assms(3,4) by (simp add: ExpandMorpheme_def)
  from general example threaded whenever show ?thesis by blast
qed

theorem ExpandMorpheme_prepend_witness:
  "ExpandMorpheme 27 (str ''ness'') (str ''cathood'') 0x43 0 = Inr (str ''bbcatness'')
   \<and> ExpandMorpheme 0 (str ''s'') (str ''cathood'') 0x47 0 = Inr (str ''aacathoods'')
   \<and> read_entry (\<lambda>b. Some (unat b)) [0x43, 0x6e, 0x65, 0x73, 0x73, 0xFF, 0x00, 0x00, 0x00] 0 27 0
        (str ''cathood'')
      = Inr ((str ''bbcatness'', []), 9, str ''catness'')
   \<and> prefix_letters 27 = Inr (str ''bb'')"
proof -
  have e: "read_entry (\<lambda>b. Some (unat b)) [0x43, 0x6e, 0x65, 0x73, 0x73, 0xFF, 0x00, 0x00, 0x00]
        0 27 0 (str ''cathood'') = Inr ((str ''bbcatness'', []), 9, str ''catness'')"
    by (simp add: read_entry_def item_def py_slice_def ExpandMorpheme_def prefix_letters_def
        py_chr_def read_turkish_def tr_offset_of_def str_def)
  show ?thesis
    using e
      ExpandMorpheme_prepend [of 27 "0x43" "str ''ness''" "str ''cathood''" 0,
        where any_index = 27 and prefix = "str ''bb''"]
      ExpandMorpheme_prepend [of 0 "0x47" "str ''s''" "str ''cathood''" 0]
    by (simp add: str_def prefix_letters_def py_chr_def)
qed

text \<open>An instruction that takes no branch of the chain leaves prefix and morpheme as they are.\<close>

lemma ExpandMorpheme_no_branch:
  assumes "prefix_letters prefix_index = Inr p"
    and "c \<noteq> 0x20" and "\<not> (0x40 < c \<and> c < 0x50)" and "\<not> (0x60 < c \<and> c < 0x70)"
    and "c \<noteq> 0x80" and "c \<noteq> 0xA0"
    and "\<not> (0xC0 < c \<and> c < 0xD0)" and "\<not> (0xE0 < c \<and> c < 0xF0)"
  shows "ExpandMorpheme prefix_index morpheme previous_word c suffix_index = Inr (p @ morpheme)"
  unfolding ExpandMorpheme_def
  by (simp only: assms sum.case if_False if_True if_cancel Let_def split: if_split)

text \<open>
  C2. For a prefix index of the offset map, the instructions 0x00 and 0x12 and every
  instruction outside the recognized codes (0x00, 0x12, 0x20, 0x41 to 0x4F, 0x61 to
  0x6F, 0x80, 0xA0, 0xC1 to 0xCF, 0xE1 to 0xEF) give the prefix followed by the
  morpheme, both as they are, and ExpandMorpheme does not raise. The same holds of any
  index whose two letters exist.
\<close>

theorem ExpandMorpheme_untransformed:
  assumes "0 \<le> prefix_index" and "prefix_index < 26 * 26"
    and "c = 0x00 \<or> c = 0x12
         \<or> (c \<noteq> 0x20 \<and> \<not> (0x41 \<le> c \<and> c \<le> 0x4F)
            \<and> \<not> (0x61 \<le> c \<and> c \<le> 0x6F) \<and> c \<noteq> 0x80 \<and> c \<noteq> 0xA0
            \<and> \<not> (0xC1 \<le> c \<and> c \<le> 0xCF) \<and> \<not> (0xE1 \<le> c \<and> c \<le> 0xEF))"
  shows "ExpandMorpheme prefix_index morpheme previous_word c suffix_index =
           Inr ([nat (97 + prefix_index div 26), nat (97 + prefix_index mod 26)] @ morpheme)
       \<and> (prefix_letters any_index = Inr prefix
           \<longrightarrow> ExpandMorpheme any_index morpheme previous_word c suffix_index =
                 Inr (prefix @ morpheme))"
proof -
  have p: "prefix_letters prefix_index =
             Inr [nat (97 + prefix_index div 26), nat (97 + prefix_index mod 26)]"
    using assms(1,2) by (rule prefix_letters_slot)
  have "c \<noteq> 0x20" using assms(3) by arith
  moreover have "\<not> (0x40 < c \<and> c < 0x50)" using assms(3) by arith
  moreover have "\<not> (0x60 < c \<and> c < 0x70)" using assms(3) by arith
  moreover have "c \<noteq> 0x80" using assms(3) by arith
  moreover have "c \<noteq> 0xA0" using assms(3) by arith
  moreover have "\<not> (0xC0 < c \<and> c < 0xD0)" using assms(3) by arith
  moreover have "\<not> (0xE0 < c \<and> c < 0xF0)" using assms(3) by arith
  ultimately have none: "ExpandMorpheme i morpheme previous_word c suffix_index = Inr (q @ morpheme)"
    if "prefix_letters i = Inr q" for i q
    using that by (rule ExpandMorpheme_no_branch [rotated])
  from none [OF p] none show ?thesis by blast
qed

theorem ExpandMorpheme_untransformed_witness:
  "ExpandMorpheme 1 (str ''le'') (str ''cathood'') 0x00 0 = Inr (str ''able'')
   \<and> ExpandMorpheme 1 (str ''le'') (str ''cathood'') 0x12 0 = Inr (str ''able'')
   \<and> ExpandMorpheme 1 (str ''le'') (str ''cathood'') 0x40 7 = Inr (str ''able'')
   \<and> ExpandMorpheme 1 (str ''le'') (str ''cathood'') 0xFF 255 = Inr (str ''able'')
   \<and> prefix_letters 1 = Inr (str ''ab'')"
  using ExpandMorpheme_untransformed [of 1 "0x00" "str ''le''" "str ''cathood''" 0,
      where any_index = 1 and prefix = "str ''ab''"]
    ExpandMorpheme_untransformed [of 1 "0x12" "str ''le''" "str ''cathood''" 0]
    ExpandMorpheme_untransformed [of 1 "0x40" "str ''le''" "str ''cathood''" 7]
    ExpandMorpheme_untransformed [of 1 "0xFF" "str ''le''" "str ''cathood''" 255]
  by (simp add: str_def prefix_letters_def py_chr_def)

section \<open>The translation of an entry\<close>

text \<open>A slice is never longer than what the buffer holds; \<open>struct.unpack\<close> wants both bytes.\<close>

lemma length_py_slice: "length (py_slice xs a b) = min (b - a) (length xs - a)"
  by (simp add: py_slice_def)

lemma unpack_H_short: "length b < 2 \<Longrightarrow> unpack_H b = Inl StructError"
  by (auto simp: unpack_H_def split: list.splits)

text \<open>
  The two replacements in the words of the specification: a backtick becomes an
  apostrophe and the sense separator (U+00A0) becomes \<open>#\<close>.
\<close>

definition tidy :: "nat \<Rightarrow> nat" where
  "tidy c = (if c = ch CHR ''`'' then ch (CHR 0x27) else if c = 0xA0 then ch CHR ''#'' else c)"

lemma replace_twice: "replace 0xA0 35 (replace 0x60 39 t) = map tidy t"
  by (simp add: replace_def tidy_def)

lemma item_nat: "n < length xs \<Longrightarrow> item xs (int n) = Inr (xs ! n)"
  by (simp add: item_def)

lemma read_entry_turkish:
  assumes "read_entry cp857 data base_offset i p w = Inr ((english, turkish), p', w')"
  shows "\<exists>q. p' = q + 3 \<and> read_turkish cp857 data base_offset q = Inr turkish"
proof -
  obtain instruction where 1: "item data (int p) = Inr instruction"
    using assms by (cases "item data (int p)") (simp_all add: read_entry_def)
  show ?thesis
  proof (cases "uint instruction \<ge> 0x80")
    case True
    with assms 1 show ?thesis
      by (auto simp: read_entry_def eval_nat_numeral split: sum.splits option.splits)
  next
    case False
    with assms 1 show ?thesis
      by (auto simp: read_entry_def eval_nat_numeral split: sum.splits option.splits)
  qed
qed

text \<open>
  The three bytes of the offset do not overlap once shifted, so the bitwise or is the
  sum: byte 1 is the low byte, byte 2 the middle one and byte 0 the high one.
\<close>

lemma bit_unat_byte: "bit (unat (b :: byte)) n \<Longrightarrow> n < 8"
  by (auto simp: bit_unsigned_iff dest: bit_imp_le_length)

lemma tr_offset_of_value:
  "tr_offset_of b0 b1 b2 = unat b1 + 256 * unat b2 + 65536 * unat b0"
proof -
  have 1: "push_bit 8 (unat b2) OR push_bit 16 (unat b0)
      = push_bit 8 (unat b2) + push_bit 16 (unat b0)"
    by (rule disjunctive_add [symmetric]) (auto simp: bit_push_bit_iff dest!: bit_unat_byte)
  have 2: "unat b1 OR (push_bit 8 (unat b2) OR push_bit 16 (unat b0))
      = unat b1 + (push_bit 8 (unat b2) OR push_bit 16 (unat b0))"
    by (rule disjunctive_add [symmetric])
       (auto simp: bit_push_bit_iff bit_or_iff dest!: bit_unat_byte)
  have "tr_offset_of b0 b1 b2 = unat b1 + (push_bit 8 (unat b2) OR push_bit 16 (unat b0))"
    unfolding tr_offset_of_def by (rule 2)
  also have "\<dots> = unat b1 + (push_bit 8 (unat b2) + push_bit 16 (unat b0))"
    by (simp only: 1)
  finally show ?thesis
    by (simp add: push_bit_eq_mult)
qed

text \<open>The 16-bit length is little-endian: the byte at \<open>tr_pos\<close> is the low one.\<close>

lemma py_slice_two:
  assumes "p + 1 < length data"
  shows "py_slice data p (p + 2) = [data ! p, data ! (p + 1)]"
proof -
  have "drop p data = data ! p # drop (Suc p) data"
    using assms by (intro Cons_nth_drop_Suc [symmetric]) simp
  moreover have "drop (Suc p) data = data ! Suc p # drop (Suc (Suc p)) data"
    using assms by (intro Cons_nth_drop_Suc [symmetric]) simp
  ultimately show ?thesis
    by (simp add: py_slice_def numeral_2_eq_2)
qed

lemma unpack_H_at:
  assumes "p + 1 < length data"
  shows "unpack_H (py_slice data p (p + 2)) = Inr (unat (data ! p) + 256 * unat (data ! (p + 1)))"
  unfolding py_slice_two [OF assms] by (simp add: unpack_H_def)

lemma unpack_H_past:
  "length data \<le> p + 1 \<Longrightarrow> unpack_H (py_slice data p (p + 2)) = Inl StructError"
  by (intro unpack_H_short) (simp add: length_py_slice)

text \<open>Every translation of a decoded dictionary was read by \<open>read_turkish\<close>.\<close>

lemma entry_loop_translations:
  assumes "entry_loop cp857 data base i limit pos w d = Inr (pos', w', d')"
    and "\<forall>et \<in> set d. \<exists>q. read_turkish cp857 data base q = Inr (snd et)"
  shows "\<forall>et \<in> set d'. \<exists>q. read_turkish cp857 data base q = Inr (snd et)"
  using assms
proof (induction cp857 data base i limit pos w d rule: entry_loop.induct)
  case (1 cp857 data base_offset i limit pos previous_word dictionary)
  show ?case
  proof (cases "pos < limit")
    case False
    with "1.prems" show ?thesis by (simp add: entry_loop.simps)
  next
    case True
    with "1.prems"(1) obtain e p2 w2
      where r: "read_entry cp857 data base_offset i pos previous_word = Inr (e, p2, w2)"
        and l: "entry_loop cp857 data base_offset i limit p2 w2 (dictionary @ [e]) = Inr (pos', w', d')"
      by (subst (asm) entry_loop.simps) (auto split: sum.splits)
    from r obtain q where "read_turkish cp857 data base_offset q = Inr (snd e)"
      using read_entry_turkish [of cp857 data base_offset i pos previous_word "fst e" "snd e" p2 w2]
      by auto
    with "1.prems"(2)
    have "\<forall>et \<in> set (dictionary @ [e]). \<exists>q. read_turkish cp857 data base_offset q = Inr (snd et)"
      by auto
    with True r l show ?thesis
      by (intro "1.IH" [of "(e, p2, w2)" e "(p2, w2)" p2 w2]) simp_all
  qed
qed

lemma offset_loop_translations:
  assumes "offset_loop cp857 data base offsets pos w d = Inr d'"
    and "\<forall>et \<in> set d. \<exists>q. read_turkish cp857 data base q = Inr (snd et)"
  shows "\<forall>et \<in> set d'. \<exists>q. read_turkish cp857 data base q = Inr (snd et)"
  using assms
proof (induction offsets arbitrary: pos w d)
  case Nil
  then show ?case by simp
next
  case (Cons io offsets)
  obtain i offset where io: "io = (i, offset)" by (cases io)
  from Cons.prems(1) io obtain p2 w2 d2
    where e: "entry_loop cp857 data base (int i) (base + offset) pos w d = Inr (p2, w2, d2)"
      and l: "offset_loop cp857 data base offsets p2 w2 d2 = Inr d'"
    by (auto split: sum.splits)
  from e Cons.prems(2)
  have "\<forall>et \<in> set d2. \<exists>q. read_turkish cp857 data base q = Inr (snd et)"
    by (rule entry_loop_translations)
  with l show ?case by (rule Cons.IH)
qed

lemma read_offsets_pos:
  "read_offsets data pos n = Inr (vs, pos') \<Longrightarrow> pos' = pos + 3 * n \<and> length vs = n"
proof (induction n arbitrary: pos vs)
  case 0
  then show ?case by simp
next
  case (Suc n)
  from Suc.prems obtain v ws where "read_offsets data (pos + 3) n = Inr (ws, pos')" and "vs = v # ws"
    by (auto split: sum.splits)
  with Suc.IH [of "pos + 3" ws] show ?case by simp
qed

lemma read_dictionary_translations:
  assumes "read_dictionary cp857 data = Inr dictionary" and "(english, turkish) \<in> set dictionary"
  shows "\<exists>q. read_turkish cp857 data (3 + 3 * (26 * 26)) q = Inr turkish"
proof -
  from assms(1) obtain offsets base
    where o: "read_offsets data 3 (26 * 26) = Inr (offsets, base)"
      and l: "offset_loop cp857 data base (zip [0 ..< length offsets] offsets) base [] []
                = Inr dictionary"
    by (auto simp: read_dictionary_def split: sum.splits)
  from o have base: "base = 3 + 3 * (26 * 26)"
    by (auto dest: read_offsets_pos)
  have "\<forall>et \<in> set dictionary. \<exists>q. read_turkish cp857 data base q = Inr (snd et)"
    using l by (rule offset_loop_translations) simp
  with assms(2) base show ?thesis by fastforce
qed

text \<open>
  C8. For an entry whose three offset bytes are in the file, with the offset
  \<open>byte 1 + 256 * byte 2 + 65536 * byte 0\<close> of these bytes and the length
  \<open>low + 256 * high\<close> of the two bytes at \<open>base_offset + tr_offset\<close>: when the offset is
  zero, or the length is zero, the translation is the empty string and nothing is
  raised; when both are positive, the translation is the \<open>tr_len\<close> bytes after the
  length, decoded by the code page, with the two replacements; a positive offset whose
  two length bytes are not both in the file raises \<open>struct.error\<close>. The translation of
  an entry that read_entry returns is the one read at the three bytes before the
  position it returns, and every translation of the dictionary that read_dictionary
  returns was read this way, with the end of the offset map as base offset.
\<close>

theorem read_turkish_cases:
  assumes "pos + 2 < length data"
    and "tr_offset = unat (data ! (pos + 1)) + 256 * unat (data ! (pos + 2))
                       + 65536 * unat (data ! pos)"
    and "tr_pos = base_offset + tr_offset"
    and "tr_len = unat (data ! tr_pos) + 256 * unat (data ! (tr_pos + 1))"
  shows "(tr_offset = 0 \<longrightarrow> read_turkish codepage data base_offset pos = Inr [])
       \<and> (0 < tr_offset \<and> tr_pos + 1 < length data \<and> tr_len = 0
            \<longrightarrow> read_turkish codepage data base_offset pos = Inr [])
       \<and> (0 < tr_offset \<and> tr_pos + 1 < length data \<and> 0 < tr_len
            \<longrightarrow> read_turkish codepage data base_offset pos =
                  (case decode codepage (take tr_len (drop (tr_pos + 2) data)) of
                     Inl e \<Rightarrow> Inl e
                   | Inr t \<Rightarrow> Inr (map tidy t)))
       \<and> (0 < tr_offset \<and> length data \<le> tr_pos + 1
            \<longrightarrow> read_turkish codepage data base_offset pos = Inl StructError)
       \<and> (read_entry codepage data base_offset i p w = Inr ((english, turkish), p', w')
            \<longrightarrow> (\<exists>q. p' = q + 3 \<and> read_turkish codepage data base_offset q = Inr turkish))
       \<and> (read_dictionary codepage data = Inr dictionary \<and> (headword, translation) \<in> set dictionary
            \<longrightarrow> (\<exists>q. read_turkish codepage data (3 + 3 * (26 * 26)) q = Inr translation))"
proof -
  have b: "item data (int (pos + 1)) = Inr (data ! (pos + 1))"
    "item data (int (pos + 2)) = Inr (data ! (pos + 2))"
    "item data (int pos) = Inr (data ! pos)"
    by (rule item_nat, use assms(1) in simp)+
  have o: "tr_offset_of (data ! pos) (data ! (pos + 1)) (data ! (pos + 2)) = tr_offset"
    using assms(2) by (simp add: tr_offset_of_value)
  have rt: "read_turkish codepage data base_offset pos =
      (if tr_offset > 0 then
         (case unpack_H (py_slice data tr_pos (tr_pos + 2)) of
            Inl e \<Rightarrow> Inl e
          | Inr n \<Rightarrow>
              if n > 0 then
                (case decode codepage (py_slice data (tr_pos + 2) (tr_pos + 2 + n)) of
                   Inl e \<Rightarrow> Inl e
                 | Inr t \<Rightarrow> Inr (map tidy t))
              else Inr [])
       else Inr [])"
    unfolding read_turkish_def b sum.case Let_def o assms(3) [symmetric]
    by (simp add: replace_twice cong: sum.case_cong if_cong)
  have len: "unpack_H (py_slice data tr_pos (tr_pos + 2)) = Inr tr_len"
    if "tr_pos + 1 < length data"
    unfolding assms(4) using that by (rule unpack_H_at)
  have zero: "tr_offset = 0 \<longrightarrow> read_turkish codepage data base_offset pos = Inr []"
    by (simp add: rt)
  have empty: "0 < tr_offset \<and> tr_pos + 1 < length data \<and> tr_len = 0
      \<longrightarrow> read_turkish codepage data base_offset pos = Inr []"
    using len by (auto simp: rt)
  have full: "0 < tr_offset \<and> tr_pos + 1 < length data \<and> 0 < tr_len
      \<longrightarrow> read_turkish codepage data base_offset pos =
            (case decode codepage (take tr_len (drop (tr_pos + 2) data)) of
               Inl e \<Rightarrow> Inl e
             | Inr t \<Rightarrow> Inr (map tidy t))"
    using len by (auto simp: rt py_slice_def)
  have past: "0 < tr_offset \<and> length data \<le> tr_pos + 1
      \<longrightarrow> read_turkish codepage data base_offset pos = Inl StructError"
    using unpack_H_past [of data tr_pos] by (auto simp: rt)
  have of_entry: "read_entry codepage data base_offset i p w = Inr ((english, turkish), p', w')
      \<longrightarrow> (\<exists>q. p' = q + 3 \<and> read_turkish codepage data base_offset q = Inr turkish)"
    by (blast dest: read_entry_turkish)
  have of_dictionary:
    "read_dictionary codepage data = Inr dictionary \<and> (headword, translation) \<in> set dictionary
      \<longrightarrow> (\<exists>q. read_turkish codepage data (3 + 3 * (26 * 26)) q = Inr translation)"
    by (blast dest: read_dictionary_translations)
  from zero empty full past of_entry of_dictionary show ?thesis by blast
qed

text \<open>A code page for the examples: 0xFF is the sense separator, every other byte itself.\<close>

definition latin :: "byte \<Rightarrow> nat option" where
  "latin b = (if b = 0xFF then Some 0xA0 else Some (unat b))"

lemma decode_latin: "decode latin bs = Inr (map (\<lambda>b. if b = 0xFF then 0xA0 else unat b) bs)"
  by (induction bs) (simp_all add: latin_def)

text \<open>Reads in a run of equal bytes.\<close>

lemma py_slice_zeros:
  "length xs \<le> a \<Longrightarrow> a + k \<le> length xs + N \<Longrightarrow>
     py_slice (xs @ replicate N x @ ys) a (a + k) = replicate k x"
  by (simp add: py_slice_def min_def)

lemma read_offsets_zeros:
  "length xs \<le> pos \<Longrightarrow> pos + 3 * n \<le> length xs + N \<Longrightarrow>
     read_offsets (xs @ replicate N 0 @ ys) pos n = Inr (replicate n 0, pos + 3 * n)"
proof (induction n arbitrary: pos)
  case 0
  show ?case by simp
next
  case (Suc n)
  from Suc.prems have "py_slice (xs @ replicate N (0 :: byte) @ ys) pos (pos + 3) = replicate 3 0"
    by (intro py_slice_zeros) simp_all
  then have "unpack_L (py_slice (xs @ replicate N 0 @ ys) pos (pos + 3) @ [0x00]) = Inr 0"
    by (simp add: unpack_L_def numeral_3_eq_3)
  moreover from Suc.prems
  have "read_offsets (xs @ replicate N 0 @ ys) (pos + 3) n = Inr (replicate n 0, pos + 3 + 3 * n)"
    by (intro Suc.IH) simp_all
  ultimately show ?case by simp
qed

lemma offset_loop_past:
  "\<forall>io \<in> set rest. base + snd io \<le> pos \<Longrightarrow>
     offset_loop cp857 data base rest pos w d = Inr d"
  by (induction rest) (auto simp: entry_loop.simps)

text \<open>
  A container of one entry: the offset map gives 7 bytes of records to the prefix
  \<open>aa\<close> and none to the others; the record is the morpheme \<open>le\<close> with the offset 7
  of a translation of 3 bytes.
\<close>

definition example_trk :: bytes where
  "example_trk =
     [0x00, 0x00, 0x00, 0x07, 0x00, 0x00] @ replicate 2025 0x00
     @ [0x00, 0x6C, 0x65, 0xFF, 0x00, 0x07, 0x00, 0x03, 0x00, 0x60, 0xFF, 0x61]"

lemma example_trk_entry:
  "read_entry latin example_trk 2031 0 2031 []
     = Inr ((str ''aale'', [ch (CHR 0x27), ch CHR ''#'', ch CHR ''a'']), 2038, str ''le'')"
  by (simp add: example_trk_def read_entry_def item_def py_slice_def ExpandMorpheme_def
      prefix_letters_def py_chr_def read_turkish_def tr_offset_of_def unpack_H_def replace_def
      latin_def str_def nth_append)

lemma example_trk_dictionary:
  "read_dictionary latin example_trk = Inr [(str ''aale'', [ch (CHR 0x27), ch CHR ''#'', ch CHR ''a''])]"
proof -
  have "py_slice example_trk 3 (3 + 3) = [0x07, 0x00, 0x00]"
    by (simp add: example_trk_def py_slice_def)
  then have first: "unpack_L (py_slice example_trk 3 (3 + 3) @ [0x00]) = Inr 7"
    by (simp add: unpack_L_def)
  have rest: "read_offsets example_trk (3 + 3) 675 = Inr (replicate 675 0, 3 + 3 + 3 * 675)"
    unfolding example_trk_def by (rule read_offsets_zeros) simp_all
  have "read_offsets example_trk 3 (Suc 675) = Inr (7 # replicate 675 0, 3 + 3 + 3 * 675)"
    by (simp only: read_offsets.simps first rest sum.case prod.case)
  moreover have "26 * 26 = Suc 675" "3 + 3 + 3 * 675 = (2031 :: nat)"
    by simp_all
  ultimately have offsets: "read_offsets example_trk 3 (26 * 26) = Inr (7 # replicate 675 0, 2031)"
    by simp
  have u: "[0 ..< 676] = 0 # [Suc 0 ..< 676]"
    by (rule upt_conv_Cons) simp
  have len: "length (7 # replicate 675 (0 :: nat)) = 676"
    by simp
  have z: "zip [0 ..< length (7 # replicate 675 (0 :: nat))] (7 # replicate 675 0)
      = (0, 7) # zip [Suc 0 ..< 676] (replicate 675 0)"
    by (simp only: len u zip_Cons_Cons)
  have e: "entry_loop latin example_trk 2031 (int 0) (2031 + 7) 2031 [] []
      = Inr (2038, str ''le'', [(str ''aale'', [ch (CHR 0x27), ch CHR ''#'', ch CHR ''a''])])"
    using example_trk_entry by (simp add: entry_loop.simps)
  have l: "offset_loop latin example_trk 2031 (zip [Suc 0 ..< 676] (replicate 675 0)) 2038 (str ''le'')
      [(str ''aale'', [ch (CHR 0x27), ch CHR ''#'', ch CHR ''a''])]
      = Inr [(str ''aale'', [ch (CHR 0x27), ch CHR ''#'', ch CHR ''a''])]"
    by (rule offset_loop_past) (auto dest: set_zip_rightD)
  show ?thesis
    by (simp only: read_dictionary_def offsets sum.case prod.case z offset_loop.simps e l)
qed

theorem read_turkish_cases_witness:
  "read_turkish latin [0x00, 0x00, 0x00] 3 0 = Inr []
   \<and> read_turkish latin ([0x01, 0x02, 0x03] @ replicate 66308 0x00 @ [0x00, 0x00]) 5 0 = Inr []
   \<and> read_turkish latin
        ([0x01, 0x02, 0x03] @ replicate 66308 0x00 @ [0x03, 0x01] @ replicate 256 0x61
           @ [0x60, 0xFF, 0x61, 0x7A]) 5 0
       = Inr (replicate 256 (ch CHR ''a'') @ [ch (CHR 0x27), ch CHR ''#'', ch CHR ''a''])
   \<and> read_turkish latin [0x00, 0x05, 0x01, 0x00, 0x00, 0x00] 3 0 = Inl StructError
   \<and> read_entry latin [0x00, 0x6C, 0x65, 0xFF, 0x00, 0x04, 0x00, 0x03, 0x00, 0x60, 0xFF, 0x61] 3 1 0 []
       = Inr ((str ''able'', [ch (CHR 0x27), ch CHR ''#'', ch CHR ''a'']), 7, str ''le'')
   \<and> read_turkish latin [0x00, 0x6C, 0x65, 0xFF, 0x00, 0x04, 0x00, 0x03, 0x00, 0x60, 0xFF, 0x61] 3 4
       = Inr [ch (CHR 0x27), ch CHR ''#'', ch CHR ''a'']
   \<and> read_dictionary latin example_trk
       = Inr [(str ''aale'', [ch (CHR 0x27), ch CHR ''#'', ch CHR ''a''])]
   \<and> (\<exists>q. read_turkish latin example_trk 2031 q = Inr [ch (CHR 0x27), ch CHR ''#'', ch CHR ''a''])"
proof -
  let ?zero = "[0x00, 0x00, 0x00] :: bytes"
  let ?empty = "[0x01, 0x02, 0x03] @ replicate 66308 0x00 @ [0x00, 0x00 :: byte]"
  let ?full = "[0x01, 0x02, 0x03] @ replicate 66308 0x00 @ [0x03, 0x01] @ replicate 256 0x61
                 @ [0x60, 0xFF, 0x61, 0x7A :: byte]"
  let ?past = "[0x00, 0x05, 0x01, 0x00, 0x00, 0x00] :: bytes"
  let ?short = "[0x00, 0x6C, 0x65, 0xFF, 0x00, 0x04, 0x00, 0x03, 0x00, 0x60, 0xFF, 0x61] :: bytes"
  let ?tr = "[ch (CHR 0x27), ch CHR ''#'', ch CHR ''a'']"
  have e: "read_entry latin ?short 3 1 0 [] = Inr ((str ''able'', ?tr), 7, str ''le'')"
    by (simp add: read_entry_def item_def py_slice_def ExpandMorpheme_def prefix_letters_def
        py_chr_def read_turkish_def tr_offset_of_def unpack_H_def replace_def latin_def str_def)
  have 1: "read_turkish latin ?zero 3 0 = Inr []"
  proof -
    have "0 + 2 < length ?zero"
      and "0 = unat (?zero ! (0 + 1)) + 256 * unat (?zero ! (0 + 2)) + 65536 * unat (?zero ! 0)"
      and "(3 :: nat) = 3 + 0"
      and "unat (?zero ! 3) + 256 * unat (?zero ! (3 + 1))
             = unat (?zero ! 3) + 256 * unat (?zero ! (3 + 1))"
      by simp_all
    note c = read_turkish_cases [where codepage = latin, OF this]
    from c [THEN conjunct1] show ?thesis by simp
  qed
  have 2: "read_turkish latin ?empty 5 0 = Inr []"
  proof -
    have "0 + 2 < length ?empty"
      and "66306 = unat (?empty ! (0 + 1)) + 256 * unat (?empty ! (0 + 2))
                     + 65536 * unat (?empty ! 0)"
      and "(66311 :: nat) = 5 + 66306"
      and "0 = unat (?empty ! 66311) + 256 * unat (?empty ! (66311 + 1))"
      by (simp_all add: nth_append)
    note c = read_turkish_cases [where codepage = latin, OF this]
    have "66311 + 1 < length ?empty" by simp
    with c [THEN conjunct2, THEN conjunct1] show ?thesis by simp
  qed
  have 3: "read_turkish latin ?full 5 0 = Inr (replicate 256 (ch CHR ''a'') @ ?tr)"
  proof -
    have "0 + 2 < length ?full"
      and "66306 = unat (?full ! (0 + 1)) + 256 * unat (?full ! (0 + 2))
                     + 65536 * unat (?full ! 0)"
      and "(66311 :: nat) = 5 + 66306"
      and "259 = unat (?full ! 66311) + 256 * unat (?full ! (66311 + 1))"
      by (simp_all add: nth_append)
    note c = read_turkish_cases [where codepage = latin, OF this]
    have "66311 + 1 < length ?full" by simp
    moreover have "take 259 (drop (66311 + 2) ?full) = replicate 256 0x61 @ [0x60, 0xFF, 0x61]"
      by simp
    ultimately show ?thesis
      using c [THEN conjunct2, THEN conjunct2, THEN conjunct1]
      by (simp add: decode_latin tidy_def)
  qed
  have 4: "read_turkish latin ?past 3 0 = Inl StructError"
  proof -
    have "0 + 2 < length ?past"
      and "261 = unat (?past ! (0 + 1)) + 256 * unat (?past ! (0 + 2)) + 65536 * unat (?past ! 0)"
      and "(264 :: nat) = 3 + 261"
      and "unat (?past ! 264) + 256 * unat (?past ! (264 + 1))
             = unat (?past ! 264) + 256 * unat (?past ! (264 + 1))"
      by simp_all
    note c = read_turkish_cases [where codepage = latin, OF this]
    from c [THEN conjunct2, THEN conjunct2, THEN conjunct2, THEN conjunct1] show ?thesis by simp
  qed
  have 5: "read_turkish latin ?short 3 4 = Inr ?tr"
  proof -
    have "4 + 2 < length ?short"
      and "4 = unat (?short ! (4 + 1)) + 256 * unat (?short ! (4 + 2)) + 65536 * unat (?short ! 4)"
      and "(7 :: nat) = 3 + 4"
      and "3 = unat (?short ! 7) + 256 * unat (?short ! (7 + 1))"
      by simp_all
    note c = read_turkish_cases [where codepage = latin, OF this]
    from c [THEN conjunct2, THEN conjunct2, THEN conjunct2, THEN conjunct2, THEN conjunct1,
        THEN mp, OF e]
    obtain q where "7 = q + 3" and q: "read_turkish latin ?short 3 q = Inr ?tr"
      by blast
    then have "q = 4" by simp
    with q show ?thesis by simp
  qed
  have 6: "\<exists>q. read_turkish latin example_trk 2031 q = Inr ?tr"
  proof -
    have "2035 + 2 < length example_trk"
      and "7 = unat (example_trk ! (2035 + 1)) + 256 * unat (example_trk ! (2035 + 2))
                 + 65536 * unat (example_trk ! 2035)"
      and "(2038 :: nat) = 2031 + 7"
      and "3 = unat (example_trk ! 2038) + 256 * unat (example_trk ! (2038 + 1))"
      by (simp_all add: example_trk_def nth_append)
    note c = read_turkish_cases [where codepage = latin, OF this]
    have "(str ''aale'', ?tr) \<in> set [(str ''aale'', ?tr)]" by simp
    with example_trk_dictionary
    have "read_dictionary latin example_trk = Inr [(str ''aale'', ?tr)]
        \<and> (str ''aale'', ?tr) \<in> set [(str ''aale'', ?tr)]" ..
    from c [THEN conjunct2, THEN conjunct2, THEN conjunct2, THEN conjunct2, THEN conjunct2,
        THEN mp, OF this]
    show ?thesis by simp
  qed
  from 1 2 3 4 e 5 6 example_trk_dictionary show ?thesis by blast
qed

section \<open>The entries of the Turkish container\<close>

text \<open>
  The order prefix by prefix, occurrence by occurrence: every prefix with the indices of
  its records, \<open>count\<close> of them from \<open>item_index\<close> on.
\<close>

fun occurrences :: "(pystr \<times> int) list \<Rightarrow> int \<Rightarrow> (pystr \<times> int) list" where
  "occurrences [] item_index = []"
| "occurrences ((prefix, count) # rest) item_index =
     map (Pair prefix) [item_index .. item_index + count - 1]
     @ occurrences rest (item_index + count)"

text \<open>The string appended for one occurrence.\<close>

definition line ::
  "bytes \<Rightarrow> nat \<Rightarrow> bytes list \<Rightarrow> bytes list \<Rightarrow> pystr \<times> int \<Rightarrow> error + pystr" where
  "line data base_offset section4 section6 occurrence =
     (case entry data base_offset section4 section6 (fst occurrence) (snd occurrence) of
        Inl e \<Rightarrow> Inl e
      | Inr (prefix', written) \<Rightarrow> Inr written)"

text \<open>The prefix that ApplyModifications hands back is the one it was given.\<close>

lemma entry_prefix:
  "entry data base_offset section4 section6 prefix i = Inr (prefix', written) \<Longrightarrow> prefix' = prefix"
  by (auto simp: entry_def ApplyModifications_def split: sum.splits option.splits if_splits)

lemma traverse_append:
  "traverse f (xs @ ys) =
     (case traverse f xs of
        Inl e \<Rightarrow> Inl e
      | Inr as \<Rightarrow> (case traverse f ys of Inl e \<Rightarrow> Inl e | Inr bs \<Rightarrow> Inr (as @ bs)))"
  by (induction xs) (auto split: sum.splits)

lemma traverse_map: "traverse f (map g xs) = traverse (\<lambda>x. f (g x)) xs"
  by (induction xs) (auto split: sum.splits)

lemma traverse_length: "traverse f xs = Inr ys \<Longrightarrow> length ys = length xs"
  by (induction xs arbitrary: ys) (auto split: sum.splits)

text \<open>The two loops append the strings of the occurrences, in their order.\<close>

lemma entries_traverse:
  "entries data base_offset section4 section6 prefix is dictionary =
     (case traverse (\<lambda>i. line data base_offset section4 section6 (prefix, i)) is of
        Inl e \<Rightarrow> Inl e
      | Inr texts \<Rightarrow> Inr (prefix, dictionary @ texts))"
proof (induction "is" arbitrary: dictionary)
  case Nil
  show ?case by simp
next
  case (Cons i rest)
  show ?case
  proof (cases "entry data base_offset section4 section6 prefix i")
    case (Inl e)
    then show ?thesis by (simp add: line_def)
  next
    case (Inr r)
    obtain prefix' written where r: "r = (prefix', written)" by (cases r)
    with Inr have "prefix' = prefix" by (auto dest: entry_prefix)
    with Inr r show ?thesis
      by (simp add: line_def Cons.IH split: sum.splits)
  qed
qed

lemma prefix_loop_traverse:
  "prefix_loop data base_offset section4 section6 prefixes item_index dictionary =
     (case traverse (line data base_offset section4 section6) (occurrences prefixes item_index) of
        Inl e \<Rightarrow> Inl e
      | Inr texts \<Rightarrow> Inr (dictionary @ texts))"
proof (induction prefixes arbitrary: item_index dictionary)
  case Nil
  show ?case by simp
next
  case (Cons pc rest)
  obtain prefix count where pc: "pc = (prefix, count)" by (cases pc)
  show ?case
  proof (cases "count = 0")
    case True
    then show ?thesis by (simp add: pc Cons.IH)
  next
    case False
    then show ?thesis
      by (simp add: pc Cons.IH entries_traverse traverse_append traverse_map
          split: sum.splits)
  qed
qed

lemma length_occurrences:
  "length (occurrences prefixes item_index) = sum_list (map (\<lambda>pc. nat (snd pc)) prefixes)"
  by (induction prefixes arbitrary: item_index) auto









lemma traverse_results:
  assumes "traverse f xs = Inr ys"
    and "\<And>x y. x \<in> set xs \<Longrightarrow> f x = Inr y \<Longrightarrow> g y = h x"
  shows "map g ys = map h xs"
  using assms by (induction xs arbitrary: ys) (auto split: sum.splits)

lemma prefix_entry_count:
  "prefix_entry section2 prefix_index = Inr pc \<Longrightarrow>
     snd pc = int (section2 ! (prefix_index + 1)) - int (section2 ! prefix_index)"
  by (auto simp: prefix_entry_def split: sum.splits)

lemma traverse_complete:
  "(\<And>x. x \<in> set xs \<Longrightarrow> \<exists>y. f x = Inr y) \<Longrightarrow> \<exists>ys. traverse f xs = Inr ys"
proof (induction xs)
  case Nil
  show ?case by simp
next
  case (Cons x xs)
  from Cons.prems obtain y where "f x = Inr y" by auto
  moreover from Cons obtain ys where "traverse f xs = Inr ys" by auto
  ultimately show ?case by simp
qed











































section \<open>Capitalization\<close>

text \<open>
  C5. The record 0f 41 00 00 of the sixth section is the one that the docstring of
  ApplyModifications gives as "first letter is capitalized"; the entry assembled under it
  has the prefix "ab" as it was, where the title-cased prefix is "Ab".
\<close>

theorem capitalization_ignored:
  "ReadDictionaryEntries [] [] 0 [(str ''ab'', 1)] [[0x00, 0x10, 0x00, 0x04]]
     [[0x0f, 0x41, 0x00, 0x00]] = Inr [str ''00    10 00    abat'']
   \<and> ApplyModifications [0x0f, 0x41, 0x00, 0x00] (str ''ab'') (str ''ad'') = (str ''ab'', str ''at'')
   \<and> title (str ''ab'') = str ''Ab''"
  by code_simp

section \<open>The number of entries\<close>

lemma sum_list_nat_int:
  "(\<And>x. x \<in> set xs \<Longrightarrow> 0 \<le> f x) \<Longrightarrow> int (sum_list (map (\<lambda>x. nat (f x)) xs)) = sum_list (map f xs)"
  by (induction xs) auto

text \<open>The count for a decode that completes.\<close>

lemma entries_appended_count:
  assumes "sorted section2"
    and "make_prefixes section2 = Inr prefixes"
    and "ReadDictionaryEntries dictionary data base_offset prefixes section4 section6
           = Inr dictionary'"
  shows "int (length dictionary') - int (length dictionary) =
           (\<Sum>i < length section2 - 1. int (section2 ! (i + 1)) - int (section2 ! i))"
proof -
  let ?count = "\<lambda>i. int (section2 ! (i + 1)) - int (section2 ! i)"
  let ?indices = "[0 ..< length section2 - 1]"
  have counts: "map snd prefixes = map ?count ?indices"
    using assms(2) unfolding make_prefixes_def
    by (rule traverse_results) (rule prefix_entry_count)
  have nonneg: "0 \<le> ?count i" if "i \<in> set ?indices" for i
  proof -
    from that have "i + 1 < length section2" by simp
    with assms(1) have "section2 ! i \<le> section2 ! (i + 1)"
      by (simp add: sorted_nth_mono)
    then show ?thesis by simp
  qed
  obtain written where w: "traverse (line data base_offset section4 section6)
      (occurrences prefixes 0) = Inr written" and d: "dictionary' = dictionary @ written"
    using assms(3) unfolding ReadDictionaryEntries_def prefix_loop_traverse
    by (auto split: sum.splits)
  have "length written = length (occurrences prefixes 0)"
    using w by (rule traverse_length)
  also have "\<dots> = sum_list (map (\<lambda>pc. nat (snd pc)) prefixes)"
    by (rule length_occurrences)
  also have "\<dots> = sum_list (map nat (map snd prefixes))"
    by (simp add: comp_def)
  also have "\<dots> = sum_list (map (\<lambda>i. nat (?count i)) ?indices)"
    by (simp only: counts map_map comp_def)
  finally have "int (length written) = sum_list (map ?count ?indices)"
    using nonneg by (simp only: sum_list_nat_int)
  also have "\<dots> = (\<Sum>i < length section2 - 1. ?count i)"
    by (simp add: interv_sum_list_conv_sum_set_nat atLeast0LessThan)
  finally show ?thesis using d by simp
qed

lemma entries_complete:
  assumes "\<And>occurrence. occurrence \<in> set (occurrences prefixes 0) \<Longrightarrow>
             \<exists>written. line data base_offset section4 section6 occurrence = Inr written"
  shows "\<exists>dictionary'.
           ReadDictionaryEntries dictionary data base_offset prefixes section4 section6
             = Inr dictionary'"
proof -
  obtain written where
    "traverse (line data base_offset section4 section6) (occurrences prefixes 0) = Inr written"
    using traverse_complete [of "occurrences prefixes 0" "line data base_offset section4 section6"]
      assms by blast
  then show ?thesis
    by (simp add: ReadDictionaryEntries_def prefix_loop_traverse)
qed

text \<open>
  C9. For a prefix table whose offsets are weakly increasing (they are 16-bit values, so
  not negative), a decode that completes appends as many entries as the counts
  \<open>section2[i + 1] - section2[i]\<close> add up to; and the decode completes when every
  occurrence has its records.
\<close>

theorem entries_appended:
  assumes "sorted section2"
    and "make_prefixes section2 = Inr prefixes"
  shows "(ReadDictionaryEntries dictionary data base_offset prefixes section4 section6
            = Inr dictionary'
          \<longrightarrow> int (length dictionary') - int (length dictionary) =
                (\<Sum>i < length section2 - 1. int (section2 ! (i + 1)) - int (section2 ! i)))
       \<and> ((\<forall>occurrence \<in> set (occurrences prefixes 0).
              \<exists>written. line data base_offset section4 section6 occurrence = Inr written)
          \<longrightarrow> (\<exists>entries.
                ReadDictionaryEntries dictionary data base_offset prefixes section4 section6
                  = Inr entries))"
  using entries_appended_count [OF assms] entries_complete by blast

lemma prefixes_of_four:
  "make_prefixes [0, 2, 2, 3] = Inr [(str ''aa'', 2), (str ''ab'', 0), (str ''ac'', 1)]"
  by code_simp

lemma three_entries_aa:
  "ReadDictionaryEntries [] [0x03, 0x00, 0x03] 0
     [(str ''aa'', 2), (str ''ab'', 0), (str ''ac'', 1)]
     [[0x00, 0x10, 0x00, 0x04], [0x00, 0xc8, 0x00, 0x00], [0x00, 0x08, 0x04, 0x00]]
     [[0x0f, 0x41, 0x00, 0x00]]
   = Inr [str ''00    10 00    aaat'', str ''00    c8 00    aa'' @ [231, 97, 231],
          str ''00    08 00    act'']"
  by code_simp

theorem entries_appended_witness:
  "sorted [0, 2, 2, 3 :: nat]
   \<and> make_prefixes [0, 2, 2, 3] = Inr [(str ''aa'', 2), (str ''ab'', 0), (str ''ac'', 1)]
   \<and> ReadDictionaryEntries [] [0x03, 0x00, 0x03] 0
        [(str ''aa'', 2), (str ''ab'', 0), (str ''ac'', 1)]
        [[0x00, 0x10, 0x00, 0x04], [0x00, 0xc8, 0x00, 0x00], [0x00, 0x08, 0x04, 0x00]]
        [[0x0f, 0x41, 0x00, 0x00]]
      = Inr [str ''00    10 00    aaat'', str ''00    c8 00    aa'' @ [231, 97, 231],
             str ''00    08 00    act'']
   \<and> int (length [str ''00    10 00    aaat'', str ''00    c8 00    aa'' @ [231, 97, 231],
             str ''00    08 00    act'']) - int (length ([] :: pystr list))
      = (\<Sum>i < length [0, 2, 2, 3 :: nat] - 1.
           int ([0, 2, 2, 3] ! (i + 1)) - int ([0, 2, 2, 3] ! i))"
proof -
  have s: "sorted [0, 2, 2, 3 :: nat]" by simp
  show ?thesis
    using s prefixes_of_four three_entries_aa
      entries_appended [OF s prefixes_of_four, of "[]" "[0x03, 0x00, 0x03]" 0
        "[[0x00, 0x10, 0x00, 0x04], [0x00, 0xc8, 0x00, 0x00], [0x00, 0x08, 0x04, 0x00]]"
        "[[0x0f, 0x41, 0x00, 0x00]]"
        "[str ''00    10 00    aaat'', str ''00    c8 00    aa'' @ [231, 97, 231],
          str ''00    08 00    act'']"]
    by simp
qed

section \<open>Reading past the end of the buffer\<close>









lemma unpack_L_error: "unpack_L b = Inl e \<Longrightarrow> e = StructError"
  by (auto simp: unpack_L_def split: list.splits)






























end
